theory Spec2Isabelle
  imports Main
begin

section \<open>JavaScript values\<close>

text \<open>
  The values the workflow client handles are plain data: \<open>undefined\<close>, \<open>null\<close>,
  booleans, numbers, strings, arrays and plain objects. Numbers are restricted to
  integers (step indices and lengths are integers; fractions, \<open>NaN\<close> and the
  infinities do not occur). An object is the map of its own properties.
\<close>

datatype jsval =
    JUndefined
  | JNull
  | JBool bool
  | JNum int
  | JStr string
  | JArr "jsval list"
  | JObj "string \<Rightarrow> jsval option"

datatype error = TypeError

text \<open>JavaScript's ToBoolean: what \<open>!v\<close>, \<open>v && w\<close> and \<open>v || w\<close> test.\<close>

fun truthy :: "jsval \<Rightarrow> bool" where
  "truthy JUndefined = False"
| "truthy JNull = False"
| "truthy (JBool b) = b"
| "truthy (JNum n) = (n \<noteq> 0)"
| "truthy (JStr s) = (s \<noteq> [])"
| "truthy (JArr xs) = True"
| "truthy (JObj m) = True"

text \<open>
  A property key names an element of an array or a character of a string when it is
  the canonical decimal spelling of a natural number.
\<close>

definition is_digit :: "char \<Rightarrow> bool" where
  "is_digit c = (48 \<le> (of_char c :: nat) \<and> (of_char c :: nat) \<le> 57)"

definition index_of_key :: "string \<Rightarrow> nat option" where
  "index_of_key k =
     (if k \<noteq> [] \<and> list_all is_digit k \<and> (k = ''0'' \<or> hd k \<noteq> CHR ''0'')
      then Some (foldl (\<lambda>n c. 10 * n + (of_char c - 48)) 0 k)
      else None)"

text \<open>
  Property access \<open>v[k]\<close> (and \<open>v.k\<close>) on own properties. Reading a property of
  \<open>undefined\<close> or \<open>null\<close> throws a TypeError; a missing property reads as
  \<open>undefined\<close>. Properties inherited from the built-in prototypes are not
  represented.
\<close>

fun get :: "jsval \<Rightarrow> string \<Rightarrow> error + jsval" where
  "get JUndefined k = Inl TypeError"
| "get JNull k = Inl TypeError"
| "get (JBool b) k = Inr JUndefined"
| "get (JNum n) k = Inr JUndefined"
| "get (JStr s) k =
     (if k = ''length'' then Inr (JNum (int (length s)))
      else case index_of_key k of
             None \<Rightarrow> Inr JUndefined
           | Some i \<Rightarrow> if i < length s then Inr (JStr [s ! i]) else Inr JUndefined)"
| "get (JArr xs) k =
     (if k = ''length'' then Inr (JNum (int (length xs)))
      else case index_of_key k of
             None \<Rightarrow> Inr JUndefined
           | Some i \<Rightarrow> if i < length xs then Inr (xs ! i) else Inr JUndefined)"
| "get (JObj m) k = (case m k of None \<Rightarrow> Inr JUndefined | Some v \<Rightarrow> Inr v)"

text \<open>
  Strict equality \<open>v === c\<close> against a number or a string constant: it holds only
  for a value of the same type with the same contents.
\<close>

fun strict_eq_num :: "jsval \<Rightarrow> int \<Rightarrow> bool" where
  "strict_eq_num (JNum n) c = (n = c)"
| "strict_eq_num _ c = False"

fun strict_eq_str :: "jsval \<Rightarrow> string \<Rightarrow> bool" where
  "strict_eq_str (JStr s) c = (s = c)"
| "strict_eq_str _ c = False"

section \<open>Data model of the status engine\<close>

record step =
  code :: string

record review =
  nextStepIndex :: int
  complete :: bool

section \<open>stepReview\<close>

text \<open>
  lodash's \<open>_.findIndex(array, predicate)\<close>: the index of the first element the
  predicate accepts, \<open>-1\<close> when there is none. An exception of the predicate ends
  the scan.
\<close>

fun findIndex_from :: "int \<Rightarrow> 'a list \<Rightarrow> ('a \<Rightarrow> error + bool) \<Rightarrow> error + int" where
  "findIndex_from i [] p = Inr (- 1)"
| "findIndex_from i (x # xs) p =
     (case p x of
        Inl e \<Rightarrow> Inl e
      | Inr b \<Rightarrow> if b then Inr i else findIndex_from (i + 1) xs p)"

definition findIndex :: "'a list \<Rightarrow> ('a \<Rightarrow> error + bool) \<Rightarrow> error + int" where
  "findIndex array p = findIndex_from 0 array p"

text \<open>
  The predicate handed to \<open>_.findIndex\<close> in \<open>stepReview\<close>:
  \<^verbatim>\<open>!result.stepResults[step.code] || result.stepResults[step.code].status !== CONSTANTS.STATUS.COMPLETE\<close>.
  The constant \<open>CONSTANTS.STATUS.COMPLETE\<close> is a parameter.
\<close>

definition step_incomplete :: "string \<Rightarrow> jsval \<Rightarrow> step \<Rightarrow> error + bool" where
  "step_incomplete COMPLETE stepResults step =
     (case get stepResults (code step) of
        Inl e \<Rightarrow> Inl e
      | Inr entry \<Rightarrow>
          if \<not> truthy entry then Inr True
          else (case get entry ''status'' of
                  Inl e \<Rightarrow> Inl e
                | Inr st \<Rightarrow> Inr (\<not> strict_eq_str st COMPLETE)))"

definition stepReview :: "string \<Rightarrow> step list \<Rightarrow> jsval \<Rightarrow> error + review" where
  "stepReview COMPLETE steps result =
     (if \<not> truthy result then Inr \<lparr>nextStepIndex = 0, complete = False\<rparr>
      else case get result ''stepResults'' of
        Inl e \<Rightarrow> Inl e
      | Inr stepResults \<Rightarrow>
          if \<not> truthy stepResults then Inr \<lparr>nextStepIndex = 0, complete = False\<rparr>
          else (case get stepResults ''length'' of
            Inl e \<Rightarrow> Inl e
          | Inr len \<Rightarrow>
              if strict_eq_num len 0 then Inr \<lparr>nextStepIndex = 0, complete = False\<rparr>
              else (case findIndex steps (step_incomplete COMPLETE stepResults) of
                Inl e \<Rightarrow> Inl e
              | Inr nextIncompleteStepIndex \<Rightarrow>
                  if nextIncompleteStepIndex = - 1
                  then Inr \<lparr>nextStepIndex = int (length steps), complete = True\<rparr>
                  else Inr \<lparr>nextStepIndex = nextIncompleteStepIndex, complete = False\<rparr>)))"

section \<open>checkStatus\<close>

record workflow =
  steps :: "step list"

record workorder =
  assignee :: jsval

text \<open>
  The display statuses \<open>CONSTANTS.STATUS.*_DISPLAY\<close> that \<open>checkStatus\<close> returns.
\<close>

datatype display_status =
    COMPLETE_DISPLAY
  | UNASSIGNED_DISPLAY
  | NEW_DISPLAY
  | PENDING_DISPLAY

definition checkStatus :: "string \<Rightarrow> workorder \<Rightarrow> workflow \<Rightarrow> jsval \<Rightarrow> error + display_status" where
  "checkStatus COMPLETE workorder workflow result =
     (case stepReview COMPLETE (steps workflow) result of
        Inl e \<Rightarrow> Inl e
      | Inr stepReview' \<Rightarrow>
          Inr (if nextStepIndex stepReview' \<ge> int (length (steps workflow)) - 1 \<and> complete stepReview'
               then COMPLETE_DISPLAY
               else if \<not> truthy (assignee workorder) then UNASSIGNED_DISPLAY
               else if nextStepIndex stepReview' < 0 then NEW_DISPLAY
               else PENDING_DISPLAY))"

section \<open>The facade: requests on the bus\<close>

text \<open>
  A promise, looked at once the bus has answered: still pending, resolved with a
  value, or rejected. A rejection carries the failure the bus reported, or the
  exception a \<open>then\<close> callback threw.
\<close>

datatype 'e reason = BusFailure 'e | Thrown error

datatype ('e, 'a) promise = Pending | Resolved 'a | Rejected "'e reason"

text \<open>
  What \<open>listResults\<close> resolves to: the array of results, or no collection at all.
\<close>

datatype 'a nullable = Null | Undefined | Value 'a

text \<open>The requests the service sends, logged in the order they are issued.\<close>

datatype request = ListResults | ReadWorkorder string | ReadWorkflow jsval

text \<open>
  The bus is the environment: its answer to each request, and which of two
  concurrent requests settles first.
\<close>

record 'e bus =
  results_list :: "('e, jsval list nullable) promise"
  workorders_read :: "string \<Rightarrow> ('e, jsval) promise"
  workflows_read :: "jsval \<Rightarrow> ('e, jsval) promise"
  workflow_settles_first :: bool

definition listResults :: "'e bus \<Rightarrow> ('e, jsval list nullable) promise \<times> request list" where
  "listResults b = (results_list b, [ListResults])"

definition readWorkorder :: "'e bus \<Rightarrow> string \<Rightarrow> ('e, jsval) promise \<times> request list" where
  "readWorkorder b workorderId = (workorders_read b workorderId, [ReadWorkorder workorderId])"

definition readWorkflow :: "'e bus \<Rightarrow> jsval \<Rightarrow> ('e, jsval) promise \<times> request list" where
  "readWorkflow b workflowId = (workflows_read b workflowId, [ReadWorkflow workflowId])"

text \<open>
  \<open>promise.then(callback)\<close>: the callback runs on the resolved value; what it
  returns (or throws) settles the new promise. A pending or rejected promise passes
  through.
\<close>

definition then_promise :: "('e, 'a) promise \<Rightarrow> ('a \<Rightarrow> ('e, 'b) promise) \<Rightarrow> ('e, 'b) promise" where
  "then_promise p callback =
     (case p of Pending \<Rightarrow> Pending | Rejected r \<Rightarrow> Rejected r | Resolved v \<Rightarrow> callback v)"

text \<open>
  \<open>q.all([p1, p2])\<close>: resolved with both values once both are resolved, rejected
  as soon as one is rejected (with the rejection that comes first).
\<close>

fun q_all :: "bool \<Rightarrow> ('e, 'a) promise \<Rightarrow> ('e, 'b) promise \<Rightarrow> ('e, 'a \<times> 'b) promise" where
  "q_all first_wins (Resolved x) (Resolved y) = Resolved (x, y)"
| "q_all first_wins (Rejected r) (Rejected r') = Rejected (if first_wins then r else r')"
| "q_all first_wins (Rejected r) _ = Rejected r"
| "q_all first_wins _ (Rejected r') = Rejected r'"
| "q_all first_wins _ _ = Pending"

text \<open>
  lodash's \<open>_.find(array, predicate)\<close>: the first element the predicate accepts,
  \<open>undefined\<close> when there is none.
\<close>

fun lodash_find :: "jsval list \<Rightarrow> (jsval \<Rightarrow> error + bool) \<Rightarrow> error + jsval" where
  "lodash_find [] p = Inr JUndefined"
| "lodash_find (x # xs) p =
     (case p x of
        Inl e \<Rightarrow> Inl e
      | Inr b \<Rightarrow> if b then Inr x else lodash_find xs p)"

text \<open>The callback of \<open>_.find\<close>: \<^verbatim>\<open>result.workorderId === workorderId\<close>.\<close>

definition has_workorderId :: "string \<Rightarrow> jsval \<Rightarrow> error + bool" where
  "has_workorderId workorderId result =
     (case get result ''workorderId'' of
        Inl e \<Rightarrow> Inl e
      | Inr v \<Rightarrow> Inr (strict_eq_str v workorderId))"

definition getResultByWorkorderId :: "'e bus \<Rightarrow> string \<Rightarrow> ('e, jsval) promise \<times> request list" where
  "getResultByWorkorderId b workorderId =
     (case listResults b of (p, requests) \<Rightarrow>
        (then_promise p (\<lambda>resultsArray.
           case lodash_find (case resultsArray of Value xs \<Rightarrow> xs | _ \<Rightarrow> [])
                  (has_workorderId workorderId) of
             Inl e \<Rightarrow> Rejected (Thrown e)
           | Inr found \<Rightarrow> Resolved (if truthy found then found else JNull)),
         requests))"

definition getWorkorderSummary :: "'e bus \<Rightarrow> string \<Rightarrow> ('e, jsval) promise \<times> request list" where
  "getWorkorderSummary b workorderId =
     (case readWorkorder b workorderId of (p, requests) \<Rightarrow>
        (case p of
           Pending \<Rightarrow> (Pending, requests)
         | Rejected r \<Rightarrow> (Rejected r, requests)
         | Resolved workorder \<Rightarrow>
             (case get workorder ''workflowId'' of
                Inl e \<Rightarrow> (Rejected (Thrown e), requests)
              | Inr workflowId \<Rightarrow>
                  (case readWorkflow b workflowId of (p1, requests1) \<Rightarrow>
                   case getResultByWorkorderId b workorderId of (p2, requests2) \<Rightarrow>
                     (then_promise (q_all (workflow_settles_first b) p1 p2)
                        (\<lambda>(workflow, result). Resolved (JArr [workorder, workflow, result])),
                      requests @ requests1 @ requests2)))))"

section \<open>Notions used to state the properties\<close>

text \<open>
  The value of the predicate of \<open>stepReview\<close> on a step, for step results that
  passed the guard (no exception occurs there, see \<open>step_incomplete_pure\<close>).
\<close>

definition incomplete_at :: "string \<Rightarrow> jsval \<Rightarrow> step \<Rightarrow> bool" where
  "incomplete_at COMPLETE stepResults s =
     (case get stepResults (code s) of
        Inl e \<Rightarrow> False
      | Inr entry \<Rightarrow> \<not> truthy entry \<or> get entry ''status'' \<noteq> Inr (JStr COMPLETE))"

text \<open>
  The review the scan yields once the guard has passed: the position of the first
  step the predicate accepts, or the number of steps when it accepts none.
\<close>

definition scan_review :: "string \<Rightarrow> step list \<Rightarrow> jsval \<Rightarrow> review" where
  "scan_review C ss sr =
     (if \<exists>s\<in>set ss. incomplete_at C sr s
      then \<lparr>nextStepIndex = int (length (takeWhile (\<lambda>s. \<not> incomplete_at C sr s) ss)), complete = False\<rparr>
      else \<lparr>nextStepIndex = int (length ss), complete = True\<rparr>)"

text \<open>
  The specification's wording of an incomplete step, over the mapping of step
  results: the step's code has no entry, or the entry's status is not the
  \<open>COMPLETE\<close> status value.
\<close>

definition lacks_complete_entry :: "string \<Rightarrow> (string \<Rightarrow> jsval option) \<Rightarrow> step \<Rightarrow> bool" where
  "lacks_complete_entry COMPLETE stepResults s =
     (case stepResults (code s) of
        None \<Rightarrow> True
      | Some entry \<Rightarrow> get entry ''status'' \<noteq> Inr (JStr COMPLETE))"

section \<open>Auxiliary facts\<close>

lemma get_truthy: "truthy v \<Longrightarrow> \<exists>w. get v k = Inr w"
  by (cases v) (auto split: option.splits)

lemma strict_eq_str_iff: "strict_eq_str v c \<longleftrightarrow> v = JStr c"
  by (cases v) auto

lemma strict_eq_num_iff: "strict_eq_num v c \<longleftrightarrow> v = JNum c"
  by (cases v) auto

lemma step_incomplete_pure:
  assumes "truthy sr"
  shows "step_incomplete C sr s = Inr (incomplete_at C sr s)"
proof -
  obtain entry where e: "get sr (code s) = Inr entry"
    using get_truthy [OF assms] by blast
  show ?thesis
  proof (cases "truthy entry")
    case False
    with e show ?thesis by (simp add: step_incomplete_def incomplete_at_def)
  next
    case True
    then obtain st where "get entry ''status'' = Inr st"
      using get_truthy by blast
    with e True show ?thesis
      by (simp add: step_incomplete_def incomplete_at_def strict_eq_str_iff)
  qed
qed

lemma findIndex_from_pure:
  "(\<forall>x\<in>set xs. p x = Inr (q x)) \<Longrightarrow>
   findIndex_from i xs p =
     Inr (if \<exists>x\<in>set xs. q x then i + int (length (takeWhile (\<lambda>x. \<not> q x) xs)) else - 1)"
  by (induction xs arbitrary: i) auto

lemma findIndex_pure:
  assumes "\<forall>x\<in>set xs. p x = Inr (q x)"
  shows "findIndex xs p =
     Inr (if \<exists>x\<in>set xs. q x then int (length (takeWhile (\<lambda>x. \<not> q x) xs)) else - 1)"
  unfolding findIndex_def using findIndex_from_pure [OF assms, of 0] by simp

lemma stepReview_cases:
  "stepReview C ss result =
     Inr (if \<not> truthy result then \<lparr>nextStepIndex = 0, complete = False\<rparr>
          else case get result ''stepResults'' of
            Inl e \<Rightarrow> \<lparr>nextStepIndex = 0, complete = False\<rparr>
          | Inr sr \<Rightarrow>
              if \<not> truthy sr \<or> get sr ''length'' = Inr (JNum 0)
              then \<lparr>nextStepIndex = 0, complete = False\<rparr>
              else scan_review C ss sr)"
proof (cases "truthy result")
  case False
  then show ?thesis by (simp add: stepReview_def)
next
  case True
  then obtain sr where sr: "get result ''stepResults'' = Inr sr"
    using get_truthy by blast
  show ?thesis
  proof (cases "truthy sr")
    case False
    with True sr show ?thesis by (simp add: stepReview_def)
  next
    case t: True
    then obtain len where len: "get sr ''length'' = Inr len"
      using get_truthy by blast
    have fi: "findIndex ss (step_incomplete C sr) =
        Inr (if \<exists>s\<in>set ss. incomplete_at C sr s
             then int (length (takeWhile (\<lambda>s. \<not> incomplete_at C sr s) ss)) else - 1)"
      by (rule findIndex_pure) (simp add: step_incomplete_pure [OF t])
    from True sr t len fi show ?thesis
      by (simp add: stepReview_def strict_eq_num_iff scan_review_def)
  qed
qed

lemma scan_review_bounds:
  "0 \<le> nextStepIndex (scan_review C ss sr) \<and> nextStepIndex (scan_review C ss sr) \<le> int (length ss)
   \<and> (complete (scan_review C ss sr) \<longrightarrow> nextStepIndex (scan_review C ss sr) = int (length ss))"
  by (simp add: scan_review_def length_takeWhile_le)

lemma stepReview_total: "\<exists>rv. stepReview C ss result = Inr rv"
  by (simp add: stepReview_cases)

lemma stepReview_bounds:
  assumes "stepReview C ss result = Inr rv"
  shows "0 \<le> nextStepIndex rv" and "nextStepIndex rv \<le> int (length ss)"
    and "complete rv \<Longrightarrow> nextStepIndex rv = int (length ss)"
  using assms scan_review_bounds [of C ss]
  by (auto simp: stepReview_cases split: sum.splits if_splits)

lemma stepReview_nonneg: "stepReview C ss result = Inr rv \<Longrightarrow> 0 \<le> nextStepIndex rv"
  by (rule stepReview_bounds)

lemma index_of_key_status: "index_of_key ''status'' = None"
  by (simp add: index_of_key_def is_digit_def)

lemma falsy_status: "\<not> truthy v \<Longrightarrow> get v ''status'' \<noteq> Inr (JStr C)"
  by (cases v) (auto simp: index_of_key_status)

lemma incomplete_at_object:
  "incomplete_at C (JObj sr) s = lacks_complete_entry C sr s"
  using falsy_status
  by (auto simp: incomplete_at_def lacks_complete_entry_def split: option.splits)

lemma first_position:
  "\<exists>x\<in>set xs. P x \<Longrightarrow>
   length (takeWhile (\<lambda>x. \<not> P x) xs) < length xs
   \<and> P (xs ! length (takeWhile (\<lambda>x. \<not> P x) xs))
   \<and> (\<forall>j<length (takeWhile (\<lambda>x. \<not> P x) xs). \<not> P (xs ! j))"
proof (induction xs)
  case Nil
  then show ?case by simp
next
  case (Cons x xs)
  show ?case
  proof (cases "P x")
    case True
    then show ?thesis by simp
  next
    case False
    with Cons.prems have "\<exists>y\<in>set xs. P y" by simp
    from Cons.IH [OF this] False show ?thesis
      by (auto simp: nth_Cons split: nat.splits)
  qed
qed

lemma lodash_find_first:
  "(\<forall>x\<in>set pre. p x = Inr False) \<Longrightarrow> p r = Inr True \<Longrightarrow>
   lodash_find (pre @ r # post) p = Inr r"
  by (induction pre) auto

lemma lodash_find_none:
  "(\<forall>x\<in>set xs. p x = Inr False) \<Longrightarrow> lodash_find xs p = Inr JUndefined"
  by (induction xs) auto

lemma index_of_key_workorderId: "index_of_key ''workorderId'' = None"
  by (simp add: index_of_key_def is_digit_def)

lemma matching_result_truthy:
  "get r ''workorderId'' = Inr (JStr wid) \<Longrightarrow> truthy r"
  by (cases r) (auto simp: index_of_key_workorderId)

lemma has_workorderId_True:
  "get r ''workorderId'' = Inr (JStr wid) \<Longrightarrow> has_workorderId wid r = Inr True"
  by (simp add: has_workorderId_def)

lemma has_workorderId_False:
  "get x ''workorderId'' = Inr v \<Longrightarrow> v \<noteq> JStr wid \<Longrightarrow> has_workorderId wid x = Inr False"
  by (simp add: has_workorderId_def strict_eq_str_iff)

lemma stepReview_not_started:
  assumes "\<not> truthy result
     \<or> (\<exists>sr. get result ''stepResults'' = Inr sr \<and> (\<not> truthy sr \<or> sr = JArr []))"
  shows "stepReview C ss result = Inr \<lparr>nextStepIndex = 0, complete = False\<rparr>"
  using assms by (auto simp: stepReview_cases)

lemma stepReview_empty_mapping:
  assumes "r ''stepResults'' = Some (JObj Map.empty)" and "ss \<noteq> []"
  shows "stepReview C ss (JObj r) = Inr \<lparr>nextStepIndex = 0, complete = False\<rparr>"
proof -
  obtain s rest where ss: "ss = s # rest"
    using assms(2) by (cases ss) auto
  have "incomplete_at C (JObj Map.empty) s"
    by (simp add: incomplete_at_def)
  with assms(1) ss show ?thesis
    by (simp add: stepReview_cases scan_review_def)
qed

lemma getResultByWorkorderId_null_element:
  assumes "results_list b = Resolved (Value (JNull # xs))"
  shows "fst (getResultByWorkorderId b workorderId) = Rejected (Thrown TypeError)"
  using assms
  by (simp add: getResultByWorkorderId_def listResults_def then_promise_def has_workorderId_def)

section \<open>stepReview: the not-started case\<close>

text \<open>
  C1: \<open>stepReview\<close> is to return \<open>{nextStepIndex: 0, complete: false}\<close> whenever
  the result is absent, its \<open>stepResults\<close> is absent, or \<open>stepResults\<close> has no entry,
  also for an empty mapping and no steps. The guard reads \<open>stepResults.length\<close>, which
  an object mapping does not have: for the empty mapping \<open>{}\<close> the scan runs, and with
  no steps it reports the workflow complete. (The other cases of the claim hold, see
  \<open>stepReview_not_started\<close> and \<open>stepReview_empty_mapping\<close>.)
\<close>

theorem stepReview_empty_mapping_empty_steps:
  "stepReview COMPLETE [] (JObj [''stepResults'' \<mapsto> JObj Map.empty])
     = Inr \<lparr>nextStepIndex = 0, complete = True\<rparr>"
  by (simp add: stepReview_def findIndex_def)

section \<open>stepReview: the scan\<close>

text \<open>
  C2: for a result whose \<open>stepResults\<close> mapping has at least one entry (each entry
  a step-result object), \<open>stepReview\<close> returns the position of the first step whose
  code has no entry or whose entry's status is not \<open>COMPLETE\<close>, with
  \<open>complete = false\<close>; when every step has a \<open>COMPLETE\<close> entry it returns
  \<open>complete = true\<close> and \<open>nextStepIndex = steps.length\<close> (\<open>0\<close> for no steps).
\<close>

theorem stepReview_first_incomplete:
  assumes "r ''stepResults'' = Some (JObj sr)"
    and "sr \<noteq> Map.empty"
    and "\<forall>v\<in>ran sr. \<exists>m. v = JObj m"
  shows "(\<exists>i<length ss. lacks_complete_entry C sr (ss ! i)
            \<and> (\<forall>j<i. \<not> lacks_complete_entry C sr (ss ! j))
            \<and> stepReview C ss (JObj r) = Inr \<lparr>nextStepIndex = int i, complete = False\<rparr>)
       \<or> ((\<forall>s\<in>set ss. \<not> lacks_complete_entry C sr s)
            \<and> stepReview C ss (JObj r) = Inr \<lparr>nextStepIndex = int (length ss), complete = True\<rparr>)"
proof -
  have len: "get (JObj sr) ''length'' \<noteq> Inr (JNum 0)"
    using assms(3) by (auto simp: ran_def split: option.splits)
  have sr: "stepReview C ss (JObj r) = Inr (scan_review C ss (JObj sr))"
    using assms(1) len by (simp add: stepReview_cases)
  show ?thesis
  proof (cases "\<exists>s\<in>set ss. lacks_complete_entry C sr s")
    case True
    from first_position [OF True] True sr show ?thesis
      by (auto simp: scan_review_def incomplete_at_object)
  next
    case False
    with sr show ?thesis
      by (simp add: scan_review_def incomplete_at_object)
  qed
qed

theorem stepReview_first_incomplete_witness:
  "stepReview ''complete'' [\<lparr>code = ''a''\<rparr>, \<lparr>code = ''b''\<rparr>]
     (JObj [''stepResults'' \<mapsto> JObj [''a'' \<mapsto> JObj [''status'' \<mapsto> JStr ''complete'']]])
     = Inr \<lparr>nextStepIndex = 1, complete = False\<rparr>
   \<and> lacks_complete_entry ''complete'' [''a'' \<mapsto> JObj [''status'' \<mapsto> JStr ''complete'']] \<lparr>code = ''b''\<rparr>
   \<and> \<not> lacks_complete_entry ''complete'' [''a'' \<mapsto> JObj [''status'' \<mapsto> JStr ''complete'']] \<lparr>code = ''a''\<rparr>"
proof -
  let ?sr = "[''a'' \<mapsto> JObj [''status'' \<mapsto> JStr ''complete'']]"
  let ?r = "[''stepResults'' \<mapsto> JObj ?sr]"
  have h2: "?r ''stepResults'' = Some (JObj ?sr)" by simp
  have h3: "?sr \<noteq> Map.empty" by simp
  have h4: "\<forall>v\<in>ran ?sr. \<exists>m. v = JObj m" by simp
  show ?thesis
    using stepReview_first_incomplete [where r = ?r and sr = ?sr
        and ss = "[\<lparr>code = ''a''\<rparr>, \<lparr>code = ''b''\<rparr>]" and C = "''complete''", OF h2 h3 h4]
    by (simp add: lacks_complete_entry_def stepReview_def findIndex_def step_incomplete_def)
qed

text \<open>
  C4: the \<open>nextStepIndex\<close> that \<open>stepReview\<close> returns lies between \<open>0\<close> and
  \<open>steps.length\<close> inclusive, and equals \<open>steps.length\<close> whenever \<open>complete\<close> is
  true; \<open>stepReview\<close> throws on no input.
\<close>

theorem stepReview_index_range:
  "\<exists>rv. stepReview C ss result = Inr rv
     \<and> 0 \<le> nextStepIndex rv \<and> nextStepIndex rv \<le> int (length ss)
     \<and> (complete rv \<longrightarrow> nextStepIndex rv = int (length ss))"
proof -
  obtain rv where rv: "stepReview C ss result = Inr rv"
    using stepReview_total by blast
  from stepReview_bounds [OF rv] rv show ?thesis by blast
qed

theorem stepReview_index_range_witness:
  "stepReview ''complete'' [\<lparr>code = ''a''\<rparr>, \<lparr>code = ''b''\<rparr>]
     (JObj [''stepResults'' \<mapsto> JObj [''a'' \<mapsto> JObj [''status'' \<mapsto> JStr ''complete''],
                                        ''b'' \<mapsto> JObj [''status'' \<mapsto> JStr ''complete'']]])
     = Inr \<lparr>nextStepIndex = 2, complete = True\<rparr>
   \<and> (\<exists>rv. stepReview ''complete'' [\<lparr>code = ''a''\<rparr>, \<lparr>code = ''b''\<rparr>]
     (JObj [''stepResults'' \<mapsto> JObj [''a'' \<mapsto> JObj [''status'' \<mapsto> JStr ''complete''],
                                        ''b'' \<mapsto> JObj [''status'' \<mapsto> JStr ''complete'']]]) = Inr rv
     \<and> complete rv \<and> nextStepIndex rv = 2)"
  using stepReview_index_range [of "''complete''" "[\<lparr>code = ''a''\<rparr>, \<lparr>code = ''b''\<rparr>]"
     "JObj [''stepResults'' \<mapsto> JObj [''a'' \<mapsto> JObj [''status'' \<mapsto> JStr ''complete''],
                                        ''b'' \<mapsto> JObj [''status'' \<mapsto> JStr ''complete'']]]"]
  by (simp add: stepReview_def findIndex_def step_incomplete_def)

section \<open>checkStatus\<close>

text \<open>
  C3: \<open>checkStatus\<close> returns the \<open>COMPLETE\<close> display status whenever
  \<open>stepReview\<close> yields \<open>complete = true\<close> and
  \<open>nextStepIndex >= workflow.steps.length - 1\<close>, whatever the assignee: completion is
  checked before assignment.
\<close>

theorem checkStatus_complete_first:
  assumes "stepReview C (steps workflow) result = Inr rv"
    and "complete rv"
    and "nextStepIndex rv \<ge> int (length (steps workflow)) - 1"
  shows "checkStatus C workorder workflow result = Inr COMPLETE_DISPLAY"
  using assms by (simp add: checkStatus_def)

theorem checkStatus_complete_first_witness:
  "checkStatus ''complete'' \<lparr>assignee = JUndefined\<rparr> \<lparr>steps = [\<lparr>code = ''a''\<rparr>]\<rparr>
     (JObj [''stepResults'' \<mapsto> JObj [''a'' \<mapsto> JObj [''status'' \<mapsto> JStr ''complete'']]])
     = Inr COMPLETE_DISPLAY
   \<and> checkStatus ''complete'' \<lparr>assignee = JStr ''trever''\<rparr> \<lparr>steps = [\<lparr>code = ''a''\<rparr>]\<rparr>
     (JObj [''stepResults'' \<mapsto> JObj [''a'' \<mapsto> JObj [''status'' \<mapsto> JStr ''complete'']]])
     = Inr COMPLETE_DISPLAY"
proof -
  let ?result = "JObj [''stepResults'' \<mapsto> JObj [''a'' \<mapsto> JObj [''status'' \<mapsto> JStr ''complete'']]]"
  let ?wfl = "\<lparr>steps = [\<lparr>code = ''a''\<rparr>]\<rparr>"
  let ?rv = "\<lparr>nextStepIndex = 1, complete = True\<rparr>"
  have r: "stepReview ''complete'' (steps ?wfl) ?result = Inr ?rv"
    by (simp add: stepReview_def findIndex_def step_incomplete_def)
  have c: "complete ?rv" by simp
  have i: "nextStepIndex ?rv \<ge> int (length (steps ?wfl)) - 1" by simp
  show ?thesis
    using checkStatus_complete_first [OF r c i, of "\<lparr>assignee = JUndefined\<rparr>"]
      checkStatus_complete_first [OF r c i, of "\<lparr>assignee = JStr ''trever''\<rparr>"]
    by simp
qed

text \<open>
  C5: \<open>stepReview\<close> never yields a negative \<open>nextStepIndex\<close>, so the
  \<open>nextStepIndex < 0\<close> branch of \<open>checkStatus\<close> is unreachable and \<open>checkStatus\<close>
  never returns the \<open>NEW\<close> display status.
\<close>

theorem checkStatus_never_new:
  "(\<exists>rv. stepReview C (steps workflow) result = Inr rv \<and> \<not> nextStepIndex rv < 0)
   \<and> checkStatus C workorder workflow result \<noteq> Inr NEW_DISPLAY"
proof -
  obtain rv where rv: "stepReview C (steps workflow) result = Inr rv"
    using stepReview_total by blast
  then have "\<not> nextStepIndex rv < 0"
    using stepReview_nonneg [OF rv] by simp
  with rv show ?thesis by (auto simp: checkStatus_def)
qed

theorem checkStatus_never_new_witness:
  "checkStatus ''complete'' \<lparr>assignee = JStr ''trever''\<rparr> \<lparr>steps = [\<lparr>code = ''a''\<rparr>]\<rparr> JNull
     = Inr PENDING_DISPLAY
   \<and> checkStatus ''complete'' \<lparr>assignee = JStr ''trever''\<rparr> \<lparr>steps = [\<lparr>code = ''a''\<rparr>]\<rparr> JNull
     \<noteq> Inr NEW_DISPLAY"
  using checkStatus_never_new [of "''complete''" "\<lparr>steps = [\<lparr>code = ''a''\<rparr>]\<rparr>" JNull "\<lparr>assignee = JStr ''trever''\<rparr>"]
  by (simp add: checkStatus_def stepReview_def)

text \<open>
  C6: for a workorder whose assignee is falsy or absent, when the \<open>COMPLETE\<close>
  condition of \<open>checkStatus\<close> does not hold, \<open>checkStatus\<close> returns the
  \<open>UNASSIGNED\<close> display status, also when some steps have \<open>COMPLETE\<close> entries.
\<close>

theorem checkStatus_unassigned:
  assumes "stepReview C (steps workflow) result = Inr rv"
    and "\<not> (nextStepIndex rv \<ge> int (length (steps workflow)) - 1 \<and> complete rv)"
    and "\<not> truthy (assignee workorder)"
  shows "checkStatus C workorder workflow result = Inr UNASSIGNED_DISPLAY"
  using assms by (simp add: checkStatus_def)

theorem checkStatus_unassigned_witness:
  "checkStatus ''complete'' \<lparr>assignee = JUndefined\<rparr> \<lparr>steps = [\<lparr>code = ''a''\<rparr>, \<lparr>code = ''b''\<rparr>]\<rparr>
     (JObj [''stepResults'' \<mapsto> JObj [''a'' \<mapsto> JObj [''status'' \<mapsto> JStr ''complete'']]])
     = Inr UNASSIGNED_DISPLAY"
proof -
  let ?result = "JObj [''stepResults'' \<mapsto> JObj [''a'' \<mapsto> JObj [''status'' \<mapsto> JStr ''complete'']]]"
  let ?wfl = "\<lparr>steps = [\<lparr>code = ''a''\<rparr>, \<lparr>code = ''b''\<rparr>]\<rparr>"
  let ?rv = "\<lparr>nextStepIndex = 1, complete = False\<rparr>"
  have r: "stepReview ''complete'' (steps ?wfl) ?result = Inr ?rv"
    by (simp add: stepReview_def findIndex_def step_incomplete_def)
  have c: "\<not> (nextStepIndex ?rv \<ge> int (length (steps ?wfl)) - 1 \<and> complete ?rv)" by simp
  have a: "\<not> truthy (assignee \<lparr>assignee = JUndefined\<rparr>)" by simp
  show ?thesis
    using checkStatus_unassigned [OF r c a] .
qed

text \<open>
  C7: for a workorder with a truthy assignee, when the \<open>COMPLETE\<close> condition of
  \<open>checkStatus\<close> does not hold and \<open>nextStepIndex\<close> is not negative,
  \<open>checkStatus\<close> returns the \<open>PENDING\<close> display status.
\<close>

theorem checkStatus_pending:
  assumes "stepReview C (steps workflow) result = Inr rv"
    and "\<not> (nextStepIndex rv \<ge> int (length (steps workflow)) - 1 \<and> complete rv)"
    and "truthy (assignee workorder)"
    and "\<not> nextStepIndex rv < 0"
  shows "checkStatus C workorder workflow result = Inr PENDING_DISPLAY"
  using assms by (simp add: checkStatus_def)

theorem checkStatus_pending_witness:
  "checkStatus ''complete'' \<lparr>assignee = JStr ''trever''\<rparr> \<lparr>steps = [\<lparr>code = ''a''\<rparr>, \<lparr>code = ''b''\<rparr>]\<rparr>
     (JObj [''stepResults'' \<mapsto> JObj [''a'' \<mapsto> JObj [''status'' \<mapsto> JStr ''complete'']]])
     = Inr PENDING_DISPLAY"
proof -
  let ?result = "JObj [''stepResults'' \<mapsto> JObj [''a'' \<mapsto> JObj [''status'' \<mapsto> JStr ''complete'']]]"
  let ?wfl = "\<lparr>steps = [\<lparr>code = ''a''\<rparr>, \<lparr>code = ''b''\<rparr>]\<rparr>"
  let ?rv = "\<lparr>nextStepIndex = 1, complete = False\<rparr>"
  have r: "stepReview ''complete'' (steps ?wfl) ?result = Inr ?rv"
    by (simp add: stepReview_def findIndex_def step_incomplete_def)
  have c: "\<not> (nextStepIndex ?rv \<ge> int (length (steps ?wfl)) - 1 \<and> complete ?rv)" by simp
  have a: "truthy (assignee \<lparr>assignee = JStr ''trever''\<rparr>)" by simp
  have n: "\<not> nextStepIndex ?rv < 0" by simp
  show ?thesis
    using checkStatus_pending [OF r c a n] .
qed

section \<open>The facade\<close>

text \<open>
  C8: \<open>getResultByWorkorderId\<close> lists the results and resolves to the first result
  whose \<open>workorderId\<close> equals the given one (the object itself, the first on
  duplicates), resolves to \<open>null\<close> when no result matches, and is rejected with the
  failure of \<open>listResults\<close> when that is rejected. A list with a first match is
  written \<open>pre @ r # post\<close>: \<open>r\<close> matches and no element of \<open>pre\<close> does. The
  elements scanned are values whose \<open>workorderId\<close> can be read.
\<close>

theorem getResultByWorkorderId_first_match:
  "(results_list b = Resolved (Value (pre @ r # post))
      \<and> (\<forall>x\<in>set pre. \<exists>v. get x ''workorderId'' = Inr v \<and> v \<noteq> JStr workorderId)
      \<and> get r ''workorderId'' = Inr (JStr workorderId)
      \<longrightarrow> fst (getResultByWorkorderId b workorderId) = Resolved r)
   \<and> (results_list b = Resolved (Value xs)
      \<and> (\<forall>x\<in>set xs. \<exists>v. get x ''workorderId'' = Inr v \<and> v \<noteq> JStr workorderId)
      \<longrightarrow> fst (getResultByWorkorderId b workorderId) = Resolved JNull)
   \<and> (results_list b = Rejected e
      \<longrightarrow> fst (getResultByWorkorderId b workorderId) = Rejected e)
   \<and> snd (getResultByWorkorderId b workorderId) = [ListResults]"
proof (intro conjI impI)
  assume a: "results_list b = Resolved (Value (pre @ r # post))
      \<and> (\<forall>x\<in>set pre. \<exists>v. get x ''workorderId'' = Inr v \<and> v \<noteq> JStr workorderId)
      \<and> get r ''workorderId'' = Inr (JStr workorderId)"
  then have "\<forall>x\<in>set pre. has_workorderId workorderId x = Inr False"
    using has_workorderId_False by blast
  moreover from a have "has_workorderId workorderId r = Inr True"
    by (simp add: has_workorderId_True)
  ultimately have "lodash_find (pre @ r # post) (has_workorderId workorderId) = Inr r"
    by (rule lodash_find_first)
  moreover from a have "truthy r" by (simp add: matching_result_truthy)
  ultimately show "fst (getResultByWorkorderId b workorderId) = Resolved r"
    using a by (simp add: getResultByWorkorderId_def listResults_def then_promise_def)
next
  assume a: "results_list b = Resolved (Value xs)
      \<and> (\<forall>x\<in>set xs. \<exists>v. get x ''workorderId'' = Inr v \<and> v \<noteq> JStr workorderId)"
  then have "\<forall>x\<in>set xs. has_workorderId workorderId x = Inr False"
    using has_workorderId_False by blast
  then have "lodash_find xs (has_workorderId workorderId) = Inr JUndefined"
    by (rule lodash_find_none)
  then show "fst (getResultByWorkorderId b workorderId) = Resolved JNull"
    using a by (simp add: getResultByWorkorderId_def listResults_def then_promise_def)
next
  assume "results_list b = Rejected e"
  then show "fst (getResultByWorkorderId b workorderId) = Rejected e"
    by (simp add: getResultByWorkorderId_def listResults_def then_promise_def)
next
  show "snd (getResultByWorkorderId b workorderId) = [ListResults]"
    by (simp add: getResultByWorkorderId_def listResults_def)
qed

theorem getResultByWorkorderId_first_match_witness:
  "fst (getResultByWorkorderId
      \<lparr>results_list = Resolved (Value
          [JObj [''workorderId'' \<mapsto> JStr ''w1''],
           JObj [''workorderId'' \<mapsto> JStr ''w2'', ''id'' \<mapsto> JNum 1],
           JObj [''workorderId'' \<mapsto> JStr ''w2'', ''id'' \<mapsto> JNum 2]]),
        workorders_read = (\<lambda>i. Pending), workflows_read = (\<lambda>i. Pending),
        workflow_settles_first = True\<rparr> ''w2'')
     = (Resolved (JObj [''workorderId'' \<mapsto> JStr ''w2'', ''id'' \<mapsto> JNum 1]) :: (string, jsval) promise)
   \<and> fst (getResultByWorkorderId
      \<lparr>results_list = Resolved (Value
          [JObj [''workorderId'' \<mapsto> JStr ''w1''],
           JObj [''workorderId'' \<mapsto> JStr ''w2'', ''id'' \<mapsto> JNum 1],
           JObj [''workorderId'' \<mapsto> JStr ''w2'', ''id'' \<mapsto> JNum 2]]),
        workorders_read = (\<lambda>i. Pending), workflows_read = (\<lambda>i. Pending),
        workflow_settles_first = True\<rparr> ''w3'')
     = (Resolved JNull :: (string, jsval) promise)
   \<and> fst (getResultByWorkorderId
      \<lparr>results_list = Rejected (BusFailure ''bus down''),
        workorders_read = (\<lambda>i. Pending), workflows_read = (\<lambda>i. Pending),
        workflow_settles_first = True\<rparr> ''w2'')
     = Rejected (BusFailure ''bus down'')"
proof -
  let ?r1 = "JObj [''workorderId'' \<mapsto> JStr ''w1'']"
  let ?r2 = "JObj [''workorderId'' \<mapsto> JStr ''w2'', ''id'' \<mapsto> JNum 1]"
  let ?r3 = "JObj [''workorderId'' \<mapsto> JStr ''w2'', ''id'' \<mapsto> JNum 2]"
  let ?b = "\<lparr>results_list = Resolved (Value [?r1, ?r2, ?r3]),
        workorders_read = (\<lambda>i. Pending), workflows_read = (\<lambda>i. Pending),
        workflow_settles_first = True\<rparr> :: string bus"
  let ?down = "\<lparr>results_list = Rejected (BusFailure ''bus down''),
        workorders_read = (\<lambda>i. Pending), workflows_read = (\<lambda>i. Pending),
        workflow_settles_first = True\<rparr> :: string bus"
  have "fst (getResultByWorkorderId ?b ''w2'') = Resolved ?r2"
    using getResultByWorkorderId_first_match [of ?b "[?r1]" ?r2 "[?r3]" "''w2''" "[]" "BusFailure ''x''"]
    by simp
  moreover have "fst (getResultByWorkorderId ?b ''w3'') = Resolved JNull"
    using getResultByWorkorderId_first_match [of ?b "[]" JNull "[]" "''w3''" "[?r1, ?r2, ?r3]" "BusFailure ''x''"]
    by simp
  moreover have "fst (getResultByWorkorderId ?down ''w2'') = Rejected (BusFailure ''bus down'')"
    using getResultByWorkorderId_first_match [of ?down "[]" JNull "[]" "''w2''" "[]" "BusFailure ''bus down''"]
    by simp
  ultimately show ?thesis by blast
qed

text \<open>
  C9: \<open>getWorkorderSummary\<close> reads the workorder first; when that is rejected it is
  rejected with the same failure and sends no further request; otherwise it reads
  the workflow named by \<open>workorder.workflowId\<close> and looks up the result of the
  workorder, and resolves to \<open>[workorder, workflow, result]\<close>.
\<close>

theorem getWorkorderSummary_order:
  "(workorders_read b workorderId = Rejected e
      \<longrightarrow> getWorkorderSummary b workorderId = (Rejected e, [ReadWorkorder workorderId]))
   \<and> (workorders_read b workorderId = Resolved workorder
      \<and> get workorder ''workflowId'' = Inr workflowId
      \<and> workflows_read b workflowId = Resolved workflow
      \<and> fst (getResultByWorkorderId b workorderId) = Resolved result
      \<longrightarrow> getWorkorderSummary b workorderId =
            (Resolved (JArr [workorder, workflow, result]),
             [ReadWorkorder workorderId, ReadWorkflow workflowId, ListResults]))"
  by (auto simp: getWorkorderSummary_def readWorkorder_def readWorkflow_def
      getResultByWorkorderId_def listResults_def then_promise_def split: prod.splits)

theorem getWorkorderSummary_order_witness:
  "getWorkorderSummary
      \<lparr>results_list = Resolved (Value [JObj [''workorderId'' \<mapsto> JStr ''w1'']]),
        workorders_read = (\<lambda>i. Resolved (JObj [''id'' \<mapsto> JStr i, ''workflowId'' \<mapsto> JStr ''f1''])),
        workflows_read = (\<lambda>i. Resolved (JObj [''id'' \<mapsto> i])),
        workflow_settles_first = True\<rparr> ''w1''
     = ((Resolved (JArr [JObj [''id'' \<mapsto> JStr ''w1'', ''workflowId'' \<mapsto> JStr ''f1''],
                        JObj [''id'' \<mapsto> JStr ''f1''],
                        JObj [''workorderId'' \<mapsto> JStr ''w1'']]) :: (string, jsval) promise),
        [ReadWorkorder ''w1'', ReadWorkflow (JStr ''f1''), ListResults])
   \<and> getWorkorderSummary
      \<lparr>results_list = Resolved (Value [JObj [''workorderId'' \<mapsto> JStr ''w1'']]),
        workorders_read = (\<lambda>i. Rejected (BusFailure ''no such workorder'')),
        workflows_read = (\<lambda>i. Resolved (JObj [''id'' \<mapsto> i])),
        workflow_settles_first = True\<rparr> ''w1''
     = (Rejected (BusFailure ''no such workorder''), [ReadWorkorder ''w1''])"
proof -
  let ?res = "JObj [''workorderId'' \<mapsto> JStr ''w1'']"
  let ?wo = "JObj [''id'' \<mapsto> JStr ''w1'', ''workflowId'' \<mapsto> JStr ''f1'']"
  let ?ok = "\<lparr>results_list = Resolved (Value [?res]),
        workorders_read = (\<lambda>i. Resolved (JObj [''id'' \<mapsto> JStr i, ''workflowId'' \<mapsto> JStr ''f1''])),
        workflows_read = (\<lambda>i. Resolved (JObj [''id'' \<mapsto> i])),
        workflow_settles_first = True\<rparr> :: string bus"
  let ?bad = "\<lparr>results_list = Resolved (Value [?res]),
        workorders_read = (\<lambda>i. Rejected (BusFailure ''no such workorder'')),
        workflows_read = (\<lambda>i. Resolved (JObj [''id'' \<mapsto> i])),
        workflow_settles_first = True\<rparr> :: string bus"
  have found: "fst (getResultByWorkorderId ?ok ''w1'') = Resolved ?res"
    by (simp add: getResultByWorkorderId_def listResults_def then_promise_def has_workorderId_def)
  have "getWorkorderSummary ?ok ''w1''
      = (Resolved (JArr [?wo, JObj [''id'' \<mapsto> JStr ''f1''], ?res]),
         [ReadWorkorder ''w1'', ReadWorkflow (JStr ''f1''), ListResults])"
    using found getWorkorderSummary_order [of ?ok "''w1''" "BusFailure ''x''" ?wo "JStr ''f1''"
        "JObj [''id'' \<mapsto> JStr ''f1'']" ?res]
    by simp
  moreover have "getWorkorderSummary ?bad ''w1''
      = (Rejected (BusFailure ''no such workorder''), [ReadWorkorder ''w1''])"
    using getWorkorderSummary_order [of ?bad "''w1''" "BusFailure ''no such workorder''" JNull JNull JNull JNull]
    by simp
  ultimately show ?thesis by blast
qed

text \<open>
  C10: when \<open>listResults\<close> resolves to \<open>null\<close> or \<open>undefined\<close> instead of a
  list, \<open>getResultByWorkorderId\<close> still resolves, to \<open>null\<close>: the scan runs over
  the empty list.
\<close>

theorem getResultByWorkorderId_no_collection:
  assumes "results_list b = Resolved Null \<or> results_list b = Resolved Undefined"
  shows "fst (getResultByWorkorderId b workorderId) = Resolved JNull"
  using assms by (auto simp: getResultByWorkorderId_def listResults_def then_promise_def)

theorem getResultByWorkorderId_no_collection_witness:
  "fst (getResultByWorkorderId
      \<lparr>results_list = Resolved Null,
        workorders_read = (\<lambda>i. Pending), workflows_read = (\<lambda>i. Pending),
        workflow_settles_first = True\<rparr> ''w2'')
     = (Resolved JNull :: (string, jsval) promise)
   \<and> fst (getResultByWorkorderId
      \<lparr>results_list = Resolved Undefined,
        workorders_read = (\<lambda>i. Pending), workflows_read = (\<lambda>i. Pending),
        workflow_settles_first = True\<rparr> ''w2'')
     = (Resolved JNull :: (string, jsval) promise)"
proof -
  let ?n = "\<lparr>results_list = Resolved Null,
        workorders_read = (\<lambda>i. Pending), workflows_read = (\<lambda>i. Pending),
        workflow_settles_first = True\<rparr> :: string bus"
  let ?u = "\<lparr>results_list = Resolved Undefined,
        workorders_read = (\<lambda>i. Pending), workflows_read = (\<lambda>i. Pending),
        workflow_settles_first = True\<rparr> :: string bus"
  have n: "results_list ?n = Resolved Null \<or> results_list ?n = Resolved Undefined" by simp
  have u: "results_list ?u = Resolved Null \<or> results_list ?u = Resolved Undefined" by simp
  show ?thesis
    using getResultByWorkorderId_no_collection [OF n, of "''w2''"]
      getResultByWorkorderId_no_collection [OF u, of "''w2''"]
    by simp
qed

end
